theory Spec2Isabelle
  imports Main
begin

section \<open>Strings of UTF-16 code units\<close>

text \<open>
  A JavaScript string is a sequence of 16-bit code units.  No arithmetic is ever done on
  a code unit by the parser (they are only compared), so a code unit is modelled by its
  numeric value and a string by the list of its code units.
\<close>

type_synonym jschar = nat
type_synonym jsstring = "jschar list"

definition str :: "string \<Rightarrow> jsstring" where
  "str s = map of_char s"

text \<open>The set matched by \<open>\s\<close>, which is also the set stripped by \<open>String.prototype.trim\<close>
  (WhiteSpace and LineTerminator of ECMAScript).\<close>

definition is_space :: "jschar \<Rightarrow> bool" where
  "is_space c = (c = 9 \<or> c = 10 \<or> c = 11 \<or> c = 12 \<or> c = 13 \<or> c = 32 \<or> c = 160
     \<or> c = 5760 \<or> (8192 \<le> c \<and> c \<le> 8202) \<or> c = 8232 \<or> c = 8233 \<or> c = 8239
     \<or> c = 8287 \<or> c = 12288 \<or> c = 65279)"

definition is_line_terminator :: "jschar \<Rightarrow> bool" where
  "is_line_terminator c = (c = 10 \<or> c = 13 \<or> c = 8232 \<or> c = 8233)"

text \<open>\<open>.\<close> matches every code unit that is not a line terminator.\<close>

definition dot :: "jschar \<Rightarrow> bool" where
  "dot c = (\<not> is_line_terminator c)"

definition is_digit :: "jschar \<Rightarrow> bool" where
  "is_digit c = (48 \<le> c \<and> c \<le> 57)"

definition is_upper :: "jschar \<Rightarrow> bool" where
  "is_upper c = (65 \<le> c \<and> c \<le> 90)"

text \<open>\<open>[A-Z]\<close> under the \<open>i\<close> flag.\<close>

definition is_alpha :: "jschar \<Rightarrow> bool" where
  "is_alpha c = (is_upper c \<or> (97 \<le> c \<and> c \<le> 122))"

text \<open>
  Canonicalize of ECMAScript for a regular expression with the \<open>i\<close> flag and without the
  \<open>u\<close> flag, restricted to what a comparison with an ASCII pattern character can observe:
  a code unit of 128 or more never canonicalizes to an ASCII one.
\<close>

definition canon :: "jschar \<Rightarrow> jschar" where
  "canon c = (if 97 \<le> c \<and> c \<le> 122 then c - 32 else c)"

definition trim :: "jsstring \<Rightarrow> jsstring" where
  "trim s = rev (dropWhile is_space (rev (dropWhile is_space s)))"

text \<open>\<open>s.split('\n')\<close> with a string separator: never the empty array.\<close>

fun split_nl :: "jsstring \<Rightarrow> jsstring list" where
  "split_nl [] = [[]]"
| "split_nl (c # cs) =
     (if c = 10 then [] # split_nl cs
      else (case split_nl cs of [] \<Rightarrow> [[c]] | l # ls \<Rightarrow> (c # l) # ls))"

text \<open>\<open>lines.join('\n')\<close>.\<close>

fun join_nl :: "jsstring list \<Rightarrow> jsstring" where
  "join_nl [] = []"
| "join_nl [l] = l"
| "join_nl (l # m # ls) = l @ 10 # join_nl (m # ls)"

section \<open>Regular expressions\<close>

text \<open>
  The fragment of ECMAScript patterns that the parser uses.  Every quantifier of the
  source stands on a single character class, so \<open>Star\<close> (greedy \<open>*\<close>) and \<open>Lazy\<close> (\<open>*?\<close>)
  take a class.  \<open>Bol\<close> is \<open>^\<close> without the \<open>m\<close> flag, \<open>Ahead\<close> is \<open>(?=...)\<close>.
\<close>

datatype regex =
    Cls "jschar \<Rightarrow> bool"
  | Eps
  | Seq regex regex
  | Alt regex regex
  | Star "jschar \<Rightarrow> bool"
  | Lazy "jschar \<Rightarrow> bool"
  | Bol
  | Ahead regex

text \<open>A matcher state: the index of the next code unit and the input from there on.\<close>

type_synonym mstate = "nat \<times> jsstring"
type_synonym cont = "mstate \<Rightarrow> mstate option"

fun star :: "(jschar \<Rightarrow> bool) \<Rightarrow> nat \<Rightarrow> jsstring \<Rightarrow> cont \<Rightarrow> mstate option" where
  "star P i [] k = k (i, [])"
| "star P i (c # cs) k =
     (if P c then (case star P (Suc i) cs k of Some r \<Rightarrow> Some r | None \<Rightarrow> k (i, c # cs))
      else k (i, c # cs))"

fun lazy :: "(jschar \<Rightarrow> bool) \<Rightarrow> nat \<Rightarrow> jsstring \<Rightarrow> cont \<Rightarrow> mstate option" where
  "lazy P i [] k = k (i, [])"
| "lazy P i (c # cs) k =
     (case k (i, c # cs) of Some r \<Rightarrow> Some r
      | None \<Rightarrow> if P c then lazy P (Suc i) cs k else None)"

text \<open>
  Backtracking matchers in continuation-passing style, as the ECMAScript specification
  defines them: \<open>run r st k\<close> tries the ways \<open>r\<close> can match at \<open>st\<close> in priority order and
  returns the first result that the continuation \<open>k\<close> accepts.
\<close>

primrec run :: "regex \<Rightarrow> mstate \<Rightarrow> cont \<Rightarrow> mstate option" where
  "run (Cls P) = (\<lambda>st k. case snd st of [] \<Rightarrow> None
                          | c # cs \<Rightarrow> if P c then k (Suc (fst st), cs) else None)"
| "run Eps = (\<lambda>st k. k st)"
| "run (Seq a b) = (\<lambda>st k. run a st (\<lambda>st'. run b st' k))"
| "run (Alt a b) = (\<lambda>st k. case run a st k of Some r \<Rightarrow> Some r | None \<Rightarrow> run b st k)"
| "run (Star P) = (\<lambda>st k. star P (fst st) (snd st) k)"
| "run (Lazy P) = (\<lambda>st k. lazy P (fst st) (snd st) k)"
| "run Bol = (\<lambda>st k. if fst st = 0 then k st else None)"
| "run (Ahead a) = (\<lambda>st k. case run a st Some of Some _ \<Rightarrow> k st | None \<Rightarrow> None)"

text \<open>Pattern characters, case-sensitive and under the \<open>i\<close> flag; literal words.\<close>

definition chr :: "jschar \<Rightarrow> regex" where
  "chr c = Cls (\<lambda>x. x = c)"

definition chr_i :: "jschar \<Rightarrow> regex" where
  "chr_i c = Cls (\<lambda>x. canon x = canon c)"

primrec word :: "jsstring \<Rightarrow> regex" where
  "word [] = Eps"
| "word (c # cs) = Seq (chr c) (word cs)"

primrec word_i :: "jsstring \<Rightarrow> regex" where
  "word_i [] = Eps"
| "word_i (c # cs) = Seq (chr_i c) (word_i cs)"

definition many1 :: "(jschar \<Rightarrow> bool) \<Rightarrow> regex" where
  "many1 P = Seq (Cls P) (Star P)"

text \<open>
  \<open>RegExp.prototype.exec\<close> without the \<open>g\<close> and \<open>y\<close> flags: the leftmost index at which the
  pattern matches, with the length of the matched text \<open>match[0]\<close>.
\<close>

fun exec_from :: "regex \<Rightarrow> nat \<Rightarrow> jsstring \<Rightarrow> (nat \<times> nat) option" where
  "exec_from r i [] =
     (case run r (i, []) Some of Some (e, _) \<Rightarrow> Some (i, e - i) | None \<Rightarrow> None)"
| "exec_from r i (c # cs) =
     (case run r (i, c # cs) Some of Some (e, _) \<Rightarrow> Some (i, e - i)
      | None \<Rightarrow> exec_from r (Suc i) cs)"

definition exec :: "regex \<Rightarrow> jsstring \<Rightarrow> (nat \<times> nat) option" where
  "exec r s = exec_from r 0 s"

definition test :: "regex \<Rightarrow> jsstring \<Rightarrow> bool" where
  "test r s = (exec r s \<noteq> None)"

text \<open>\<open>s.replace(r, '')\<close> for a pattern without the \<open>g\<close> flag.\<close>

definition replace_first :: "regex \<Rightarrow> jsstring \<Rightarrow> jsstring" where
  "replace_first r s =
     (case exec r s of None \<Rightarrow> s | Some (i, n) \<Rightarrow> take i s @ drop (i + n) s)"

text \<open>
  A match never moves backwards: whatever the continuation is given is a later state of
  the same input.  The loops of \<open>split\<close> and of a global \<open>replace\<close> terminate by this.
\<close>

lemma star_result:
  "star P i xs k = Some res \<Longrightarrow>
     \<exists>j ys. k (j, ys) = Some res \<and> length ys \<le> length xs \<and> j + length ys = i + length xs"
proof (induction xs arbitrary: i)
  case Nil
  then show ?case by auto
next
  case (Cons c cs)
  show ?case
  proof (cases "P c \<and> star P (Suc i) cs k \<noteq> None")
    case True
    then have "star P (Suc i) cs k = Some res" using Cons.prems by auto
    from Cons.IH [OF this] show ?thesis by fastforce
  next
    case False
    then have "k (i, c # cs) = Some res"
      using Cons.prems by (auto split: if_splits option.splits)
    then show ?thesis by blast
  qed
qed

lemma lazy_result:
  "lazy P i xs k = Some res \<Longrightarrow>
     \<exists>j ys. k (j, ys) = Some res \<and> length ys \<le> length xs \<and> j + length ys = i + length xs"
proof (induction xs arbitrary: i)
  case Nil
  then show ?case by auto
next
  case (Cons c cs)
  show ?case
  proof (cases "k (i, c # cs)")
    case None
    then have "lazy P (Suc i) cs k = Some res" using Cons.prems by (auto split: if_splits)
    from Cons.IH [OF this] show ?thesis by fastforce
  next
    case (Some a)
    then have "k (i, c # cs) = Some res" using Cons.prems by auto
    then show ?thesis by blast
  qed
qed

lemma here_result:
  "k (i, xs) = Some res \<Longrightarrow>
     \<exists>j ys. k (j, ys) = Some res \<and> length ys \<le> length xs \<and> j + length ys = i + length xs"
  by (intro exI [of _ i] exI [of _ xs]) simp

lemma run_result:
  "run r (i, xs) k = Some res \<Longrightarrow>
     \<exists>j ys. k (j, ys) = Some res \<and> length ys \<le> length xs \<and> j + length ys = i + length xs"
proof (induction r arbitrary: i xs k res)
  case (Cls P)
  show ?case
  proof (cases xs)
    case Nil
    then show ?thesis using Cls by simp
  next
    case (Cons c cs)
    then have "k (Suc i, cs) = Some res" using Cls by (auto split: if_splits)
    then show ?thesis using Cons by (intro exI [of _ "Suc i"] exI [of _ cs]) simp
  qed
next
  case Eps
  then show ?case by (simp add: here_result)
next
  case (Seq a b)
  from Seq.prems have "run a (i, xs) (\<lambda>st'. run b st' k) = Some res" by simp
  from Seq.IH(1) [OF this] obtain j ys where
    b: "run b (j, ys) k = Some res" and l: "length ys \<le> length xs" "j + length ys = i + length xs"
    by auto
  from Seq.IH(2) [OF b] obtain j' zs where
    "k (j', zs) = Some res" "length zs \<le> length ys" "j' + length zs = j + length ys"
    by auto
  with l show ?case by (intro exI [of _ j'] exI [of _ zs]) auto
next
  case (Alt a b)
  then show ?case by (cases "run a (i, xs) k") auto
next
  case (Star P)
  then show ?case using star_result by simp
next
  case (Lazy P)
  then show ?case using lazy_result by simp
next
  case Bol
  then have "k (i, xs) = Some res" by (simp split: if_splits)
  then show ?case by (rule here_result)
next
  case (Ahead a)
  then have "k (i, xs) = Some res" by (simp split: option.splits)
  then show ?case by (rule here_result)
qed

lemma run_Some_result:
  "run r (i, xs) Some = Some (e, ys) \<Longrightarrow> length ys \<le> length xs \<and> e + length ys = i + length xs"
  using run_result [of r i xs Some "(e, ys)"] by auto

text \<open>
  \<open>s.split(r)\<close> with a regular expression: the loop of \<open>RegExp.prototype[Symbol.split]\<close>.
  The pattern is tried at index \<open>q\<close> only (the splitter is sticky); \<open>p\<close> is the end of the
  last separator and \<open>acc\<close> the text from \<open>p\<close> to \<open>q\<close>.  An empty match at \<open>p\<close> is skipped.
  The patterns of the parser have no capture groups.
\<close>

function split_loop :: "regex \<Rightarrow> nat \<Rightarrow> jsstring \<Rightarrow> nat \<Rightarrow> jsstring \<Rightarrow> jsstring list" where
  "split_loop r p acc q [] = [acc]"
| "split_loop r p acc q (c # cs) =
     (case run r (q, c # cs) Some of
        None \<Rightarrow> split_loop r p (acc @ [c]) (Suc q) cs
      | Some (e, rest) \<Rightarrow>
          if e = p then split_loop r p (acc @ [c]) (Suc q) cs
          else acc # split_loop r e [] e rest)"
  by pat_completeness auto
termination
  by (relation "measure (\<lambda>(r, p, acc, q, xs). 2 * length xs + (if p = q then 0 else 1))")
     (auto dest!: run_Some_result)

definition regex_split :: "regex \<Rightarrow> jsstring \<Rightarrow> jsstring list" where
  "regex_split r s =
     (if s = [] then (case run r (0, []) Some of Some _ \<Rightarrow> [] | None \<Rightarrow> [[]])
      else split_loop r 0 [] 0 s)"

text \<open>
  \<open>s.replace(r, '')\<close> for a pattern with the \<open>g\<close> flag: every match, found from left to
  right starting after the previous one, is removed; after an empty match the search
  moves on by one code unit.
\<close>

function remove_all :: "regex \<Rightarrow> nat \<Rightarrow> jsstring \<Rightarrow> jsstring" where
  "remove_all r i [] = []"
| "remove_all r i (c # cs) =
     (case run r (i, c # cs) Some of
        None \<Rightarrow> c # remove_all r (Suc i) cs
      | Some (e, rest) \<Rightarrow>
          if e = i then c # remove_all r (Suc i) cs else remove_all r e rest)"
  by pat_completeness auto
termination
  by (relation "measure (\<lambda>(r, i, xs). length xs)") (auto dest!: run_Some_result)

section \<open>The result parser\<close>

record SolutionStep =
  title :: jsstring
  content :: jsstring

record ParsedResult =
  steps :: "SolutionStep list"
  finalAnswer :: jsstring
  fallback :: bool

text \<open>Reading \<open>lines[0]\<close> of an empty array gives \<open>undefined\<close>, and \<open>undefined.trim()\<close> throws.\<close>

datatype error = TypeError

subsection \<open>The patterns of \<open>parseResult\<close>\<close>

text \<open>\<open>/(?:##|\*\*)\s*Final Answer/i\<close>\<close>

definition finalAnswerRegex :: regex where
  "finalAnswerRegex =
     Seq (Alt (word_i (str ''##'')) (word_i (str ''**'')))
       (Seq (Star is_space) (word_i (str ''Final Answer'')))"

text \<open>\<open>/^[:\s*]+/\<close>; 58 is the colon and 42 the asterisk.\<close>

definition lead_class :: "jschar \<Rightarrow> bool" where
  "lead_class c = (c = 58 \<or> is_space c \<or> c = 42)"

definition leadRegex :: regex where
  "leadRegex = Seq Bol (many1 lead_class)"

text \<open>\<open>/##\s*Solution Steps/i\<close>\<close>

definition stepsHeaderRegex :: regex where
  "stepsHeaderRegex =
     Seq (word_i (str ''##'')) (Seq (Star is_space) (word_i (str ''Solution Steps'')))"

text \<open>\<open>(?:^|\n)\<close>, at the head of every trigger and separator pattern; 10 is the line
  feed.\<close>

definition line_start :: regex where
  "line_start = Alt Bol (chr 10)"

text \<open>\<open>###\s+\<close>, tested as \<open>/(?:^|\n)###\s+/\<close> and split at \<open>/(?:^|\n)(?=###\s+)/\<close>.\<close>

definition heading_mark :: regex where
  "heading_mark = Seq (word (str ''###'')) (many1 is_space)"

text \<open>\<open>\*\*(?:Step|Step\s+\d+).*?\*\*\<close> under the \<open>i\<close> flag.\<close>

definition bold_mark :: regex where
  "bold_mark =
     Seq (word_i (str ''**''))
       (Seq (Alt (word_i (str ''Step''))
                 (Seq (word_i (str ''Step'')) (Seq (many1 is_space) (many1 is_digit))))
          (Seq (Lazy dot) (word_i (str ''**''))))"

text \<open>\<open>Step\s+\d+[:.]\<close> under the \<open>i\<close> flag; 46 is the period.\<close>

definition keyword_mark :: regex where
  "keyword_mark =
     Seq (word_i (str ''Step''))
       (Seq (many1 is_space) (Seq (many1 is_digit) (Cls (\<lambda>c. c = 58 \<or> c = 46))))"

text \<open>\<open>\d+\.\s+[A-Z]\<close>, the trigger of the numbered-list branch, and \<open>\d+\.\s+\<close>, the
  look-ahead of its separator.\<close>

definition numbered_trigger :: regex where
  "numbered_trigger =
     Seq (many1 is_digit) (Seq (chr 46) (Seq (many1 is_space) (Cls is_upper)))"

definition numbered_mark :: regex where
  "numbered_mark = Seq (many1 is_digit) (Seq (chr 46) (many1 is_space))"

definition trigger :: "regex \<Rightarrow> regex" where
  "trigger m = Seq line_start m"

definition separator :: "regex \<Rightarrow> regex" where
  "separator m = Seq line_start (Ahead m)"

text \<open>\<open>/^###\s*/\<close>\<close>

definition headingPrefix :: regex where
  "headingPrefix = Seq Bol (Seq (word (str ''###'')) (Star is_space))"

text \<open>\<open>/^(?:Step\s*\d+|Step\s+[A-Z]|\d+\.)[:.\s-]*/i\<close>; 45 is the hyphen.\<close>

definition sep_class :: "jschar \<Rightarrow> bool" where
  "sep_class c = (c = 58 \<or> c = 46 \<or> is_space c \<or> c = 45)"

definition prefixRegex :: regex where
  "prefixRegex =
     Seq Bol
       (Seq (Alt (Seq (word_i (str ''Step'')) (Seq (Star is_space) (many1 is_digit)))
              (Alt (Seq (word_i (str ''Step'')) (Seq (many1 is_space) (Cls is_alpha)))
                   (Seq (many1 is_digit) (chr_i 46))))
          (Star sep_class))"

subsection \<open>The steps of \<open>parseResult\<close>\<close>

text \<open>Step 1: the final answer and \<open>stepsText\<close>.\<close>

definition extract_final :: "jsstring \<Rightarrow> jsstring \<times> jsstring" where
  "extract_final text =
     (case exec finalAnswerRegex text of
        None \<Rightarrow> ([], text)
      | Some (index, n) \<Rightarrow>
          (trim (replace_first leadRegex (drop (index + n) text)), trim (take index text)))"

text \<open>Step 2: \<open>contentToParse\<close>.\<close>

definition contentToParse :: "jsstring \<Rightarrow> jsstring" where
  "contentToParse stepsText =
     (case exec stepsHeaderRegex stepsText of
        None \<Rightarrow> stepsText
      | Some (index, n) \<Rightarrow> trim (drop (index + n) stepsText))"

text \<open>Step 3: \<open>rawSteps\<close>; \<open>filter(s => s.trim())\<close> keeps the pieces that are not blank.\<close>

definition nonblank :: "jsstring \<Rightarrow> bool" where
  "nonblank s = (trim s \<noteq> [])"

definition rawSteps :: "jsstring \<Rightarrow> jsstring list" where
  "rawSteps c =
     (if test (trigger heading_mark) c then filter nonblank (regex_split (separator heading_mark) c)
      else if test (trigger bold_mark) c then filter nonblank (regex_split (separator bold_mark) c)
      else if test (trigger keyword_mark) c
        then filter nonblank (regex_split (separator keyword_mark) c)
      else if test (trigger numbered_trigger) c
        then filter nonblank (regex_split (separator numbered_mark) c)
      else [c])"

text \<open>The body of the \<open>map\<close> over \<open>rawSteps\<close>.\<close>

definition normalize_step :: "jsstring \<Rightarrow> error + SolutionStep" where
  "normalize_step rawStep =
     (case split_nl (trim rawStep) of
        [] \<Rightarrow> Inl TypeError
      | l0 # ls \<Rightarrow>
          let header = trim l0;
              content0 = trim (join_nl ls);
              title0 = remove_all (word (str ''**'')) 0 (replace_first headingPrefix header);
              title1 = (case exec prefixRegex title0 of
                          Some (index, n) \<Rightarrow> trim (drop n title0)
                        | None \<Rightarrow> title0);
              demote = (content0 = [] \<and> length title1 > 0);
              content1 = (if demote then title1 else content0);
              title2 = (if demote then str ''Explanation'' else title1);
              title3 = (if title2 = [] then str ''Step Details'' else title2)
          in Inr \<lparr>title = title3, content = content1\<rparr>)"

fun map_result :: "('a \<Rightarrow> error + 'b) \<Rightarrow> 'a list \<Rightarrow> error + 'b list" where
  "map_result f [] = Inr []"
| "map_result f (x # xs) =
     (case f x of
        Inl e \<Rightarrow> Inl e
      | Inr y \<Rightarrow> (case map_result f xs of Inl e \<Rightarrow> Inl e | Inr ys \<Rightarrow> Inr (y # ys)))"

text \<open>Step 5: the whole content as one step, or the fallback flag.\<close>

definition finish :: "SolutionStep list \<Rightarrow> jsstring \<Rightarrow> jsstring \<Rightarrow> ParsedResult" where
  "finish kept c fa =
     (if length kept = 0 then
        (if length (trim c) > 0
           then \<lparr>steps = [\<lparr>title = str ''Analysis'', content = c\<rparr>], finalAnswer = fa,
                  fallback = False\<rparr>
         else if fa = [] then \<lparr>steps = kept, finalAnswer = fa, fallback = True\<rparr>
         else \<lparr>steps = kept, finalAnswer = fa, fallback = False\<rparr>)
      else \<lparr>steps = kept, finalAnswer = fa, fallback = False\<rparr>)"

text \<open>Steps 2 to 5, from \<open>stepsText\<close> and the final answer.\<close>

definition build :: "jsstring \<Rightarrow> jsstring \<Rightarrow> error + ParsedResult" where
  "build stepsText fa =
     (let c = contentToParse stepsText in
      case map_result normalize_step (rawSteps c) of
        Inl e \<Rightarrow> Inl e
      | Inr ss \<Rightarrow> Inr (finish (filter (\<lambda>s. content s \<noteq> []) ss) c fa))"

text \<open>\<open>parseResult\<close>: \<open>Inl\<close> is an exception, \<open>Inr None\<close> is \<open>null\<close>.\<close>

definition parseResult :: "jsstring \<Rightarrow> error + ParsedResult option" where
  "parseResult text =
     (if text = [] then Inr None
      else case extract_final text of
        (fa, stepsText) \<Rightarrow>
          (case build stepsText fa of Inl e \<Rightarrow> Inl e | Inr r \<Rightarrow> Inr (Some r)))"

section \<open>The pattern objects and their state\<close>

text \<open>
  A \<open>RegExp\<close> object has a mutable \<open>lastIndex\<close>.  The objects live in a heap that outlasts
  a call of \<open>parseResult\<close>: \<open>cells\<close> maps an address to its object and \<open>fresh\<close> is the next
  free address.  Evaluating a pattern literal creates a new object with \<open>lastIndex\<close> 0.
\<close>

record regobj =
  source :: regex
  global :: bool
  lastIndex :: nat

record heap =
  cells :: "nat \<Rightarrow> regobj"
  fresh :: nat

definition new_regexp :: "regex \<Rightarrow> bool \<Rightarrow> heap \<Rightarrow> nat \<times> heap" where
  "new_regexp r g h =
     (fresh h,
      h\<lparr>cells := (cells h)(fresh h := \<lparr>source = r, global = g, lastIndex = 0\<rparr>),
        fresh := Suc (fresh h)\<rparr>)"

definition set_lastIndex :: "nat \<Rightarrow> nat \<Rightarrow> heap \<Rightarrow> heap" where
  "set_lastIndex a v h = h\<lparr>cells := (cells h)(a := (cells h a)\<lparr>lastIndex := v\<rparr>)\<rparr>"

text \<open>
  \<open>RegExpBuiltinExec\<close>: the search starts at \<open>lastIndex\<close> when the object has the \<open>g\<close> flag
  and at 0 otherwise; with the \<open>g\<close> flag, \<open>lastIndex\<close> becomes the end of the match, or 0
  when there is none.  (No pattern of the parser has the \<open>y\<close> flag.)
\<close>

definition regexp_exec :: "nat \<Rightarrow> jsstring \<Rightarrow> heap \<Rightarrow> (nat \<times> nat) option \<times> heap" where
  "regexp_exec a s h =
     (let R = cells h a; li = (if global R then lastIndex R else 0) in
      if length s < li then (None, if global R then set_lastIndex a 0 h else h)
      else case exec_from (source R) li (drop li s) of
             None \<Rightarrow> (None, if global R then set_lastIndex a 0 h else h)
           | Some (index, n) \<Rightarrow>
               (Some (index, n), if global R then set_lastIndex a (index + n) h else h))"

text \<open>\<open>r.test(s)\<close>, and \<open>s.match(r)\<close> for a pattern without the \<open>g\<close> flag.\<close>

definition regexp_test :: "nat \<Rightarrow> jsstring \<Rightarrow> heap \<Rightarrow> bool \<times> heap" where
  "regexp_test a s h = (case regexp_exec a s h of (m, h') \<Rightarrow> (m \<noteq> None, h'))"

definition string_match :: "nat \<Rightarrow> jsstring \<Rightarrow> heap \<Rightarrow> (nat \<times> nat) option \<times> heap" where
  "string_match a s h = regexp_exec a s h"

text \<open>
  \<open>s.replace(r, '')\<close>.  With the \<open>g\<close> flag, \<open>lastIndex\<close> is set to 0 first, every match is
  removed, and the search that finds no further match leaves \<open>lastIndex\<close> at 0.  Without
  it, the first match is removed.
\<close>

definition string_replace :: "nat \<Rightarrow> jsstring \<Rightarrow> heap \<Rightarrow> jsstring \<times> heap" where
  "string_replace a s h =
     (if global (cells h a) then (remove_all (source (cells h a)) 0 s, set_lastIndex a 0 h)
      else case regexp_exec a s h of
             (None, h') \<Rightarrow> (s, h')
           | (Some (index, n), h') \<Rightarrow> (take index s @ drop (index + n) s, h'))"

text \<open>\<open>s.split(r)\<close> reads the source of the pattern object and works on a copy of its own,
  out of reach once \<open>split\<close> returns.\<close>

definition string_split :: "nat \<Rightarrow> jsstring \<Rightarrow> heap \<Rightarrow> jsstring list \<times> heap" where
  "string_split a s h = (regex_split (source (cells h a)) s, h)"

section \<open>The result parser on the heap\<close>

definition extract_final_st :: "jsstring \<Rightarrow> heap \<Rightarrow> (jsstring \<times> jsstring) \<times> heap" where
  "extract_final_st text h0 =
     (case new_regexp finalAnswerRegex False h0 of (re, h1) \<Rightarrow>
      case string_match re text h1 of
        (None, h2) \<Rightarrow> (([], text), h2)
      | (Some (index, n), h2) \<Rightarrow>
          (case new_regexp leadRegex False h2 of (re', h3) \<Rightarrow>
           case string_replace re' (drop (index + n) text) h3 of (rest, h4) \<Rightarrow>
             ((trim rest, trim (take index text)), h4)))"

definition contentToParse_st :: "jsstring \<Rightarrow> heap \<Rightarrow> jsstring \<times> heap" where
  "contentToParse_st stepsText h0 =
     (case new_regexp stepsHeaderRegex False h0 of (re, h1) \<Rightarrow>
      case string_match re stepsText h1 of
        (None, h2) \<Rightarrow> (stepsText, h2)
      | (Some (index, n), h2) \<Rightarrow> (trim (drop (index + n) stepsText), h2))"

text \<open>One branch of the chain: the trigger literal is tested, and when it matches, the
  separator literal splits the content.\<close>

definition branch_st ::
  "regex \<Rightarrow> regex \<Rightarrow> jsstring \<Rightarrow> (heap \<Rightarrow> jsstring list \<times> heap) \<Rightarrow> heap \<Rightarrow> jsstring list \<times> heap" where
  "branch_st t s c otherwise h0 =
     (case new_regexp t False h0 of (re, h1) \<Rightarrow>
      case regexp_test re c h1 of
        (True, h2) \<Rightarrow>
          (case new_regexp s False h2 of (re', h3) \<Rightarrow>
           case string_split re' c h3 of (pieces, h4) \<Rightarrow> (filter nonblank pieces, h4))
      | (False, h2) \<Rightarrow> otherwise h2)"

definition rawSteps_st :: "jsstring \<Rightarrow> heap \<Rightarrow> jsstring list \<times> heap" where
  "rawSteps_st c =
     branch_st (trigger heading_mark) (separator heading_mark) c
       (branch_st (trigger bold_mark) (separator bold_mark) c
          (branch_st (trigger keyword_mark) (separator keyword_mark) c
             (branch_st (trigger numbered_trigger) (separator numbered_mark) c
                (\<lambda>h. ([c], h)))))"

definition normalize_step_st :: "jsstring \<Rightarrow> heap \<Rightarrow> (error + SolutionStep) \<times> heap" where
  "normalize_step_st rawStep h0 =
     (case split_nl (trim rawStep) of
        [] \<Rightarrow> (Inl TypeError, h0)
      | l0 # ls \<Rightarrow>
          let header = trim l0;
              content0 = trim (join_nl ls)
          in case new_regexp headingPrefix False h0 of (re1, h1) \<Rightarrow>
             case string_replace re1 header h1 of (unheaded, h2) \<Rightarrow>
             case new_regexp (word (str ''**'')) True h2 of (re2, h3) \<Rightarrow>
             case string_replace re2 unheaded h3 of (title0, h4) \<Rightarrow>
             case new_regexp prefixRegex False h4 of (re3, h5) \<Rightarrow>
             case string_match re3 title0 h5 of (prefixMatch, h6) \<Rightarrow>
               let title1 = (case prefixMatch of
                               Some (index, n) \<Rightarrow> trim (drop n title0)
                             | None \<Rightarrow> title0);
                   demote = (content0 = [] \<and> length title1 > 0);
                   content1 = (if demote then title1 else content0);
                   title2 = (if demote then str ''Explanation'' else title1);
                   title3 = (if title2 = [] then str ''Step Details'' else title2)
               in (Inr \<lparr>title = title3, content = content1\<rparr>, h6))"

fun map_result_st ::
  "('a \<Rightarrow> heap \<Rightarrow> (error + 'b) \<times> heap) \<Rightarrow> 'a list \<Rightarrow> heap \<Rightarrow> (error + 'b list) \<times> heap" where
  "map_result_st f [] h = (Inr [], h)"
| "map_result_st f (x # xs) h =
     (case f x h of
        (Inl e, h') \<Rightarrow> (Inl e, h')
      | (Inr y, h') \<Rightarrow>
          (case map_result_st f xs h' of
             (Inl e, h'') \<Rightarrow> (Inl e, h'')
           | (Inr ys, h'') \<Rightarrow> (Inr (y # ys), h'')))"

definition parseResult_st :: "jsstring \<Rightarrow> heap \<Rightarrow> (error + ParsedResult option) \<times> heap" where
  "parseResult_st text h0 =
     (if text = [] then (Inr None, h0)
      else case extract_final_st text h0 of ((fa, stepsText), h1) \<Rightarrow>
           case contentToParse_st stepsText h1 of (c, h2) \<Rightarrow>
           case rawSteps_st c h2 of (raw, h3) \<Rightarrow>
           case map_result_st normalize_step_st raw h3 of
             (Inl e, h4) \<Rightarrow> (Inl e, h4)
           | (Inr ss, h4) \<Rightarrow>
               (Inr (Some (finish (filter (\<lambda>s. content s \<noteq> []) ss) c fa)), h4))"

section \<open>Notions of the specification\<close>

text \<open>
  The marker of the final answer, read off the input: \<open>##\<close> or \<open>**\<close>, then whitespace or
  none, then the phrase \<open>Final Answer\<close> in any case.  \<open>final_marker_len\<close> is the length of
  the marker that starts the input, if one does.
\<close>

definition final_marker_len :: "jsstring \<Rightarrow> nat option" where
  "final_marker_len xs =
     (if (map canon (take 2 xs) = str ''##'' \<or> map canon (take 2 xs) = str ''**'') \<and>
         map canon (take 12 (dropWhile is_space (drop 2 xs))) = str ''FINAL ANSWER''
      then Some (2 + length (takeWhile is_space (drop 2 xs)) + 12) else None)"

definition final_marker :: "jsstring \<Rightarrow> bool" where
  "final_marker xs \<longleftrightarrow> final_marker_len xs \<noteq> None"

text \<open>The marker read strictly: no whitespace between the mark and the phrase.\<close>

definition strict_final_marker :: "jsstring \<Rightarrow> bool" where
  "strict_final_marker xs \<longleftrightarrow>
     (map canon (take 2 xs) = str ''##'' \<or> map canon (take 2 xs) = str ''**'') \<and>
     map canon (take 12 (drop 2 xs)) = str ''FINAL ANSWER''"

text \<open>The first index at which the rest of the input satisfies \<open>P\<close>.\<close>

fun first_index :: "(jsstring \<Rightarrow> bool) \<Rightarrow> nat \<Rightarrow> jsstring \<Rightarrow> nat option" where
  "first_index P i [] = (if P [] then Some i else None)"
| "first_index P i (c # cs) = (if P (c # cs) then Some i else first_index P (Suc i) cs)"

text \<open>
  The pieces of a text cut before each line, after the first, whose text satisfies \<open>L\<close>;
  the line break before such a line is the separator and is in no piece.
\<close>

fun cut_lines :: "(jsstring \<Rightarrow> bool) \<Rightarrow> jsstring \<Rightarrow> jsstring list" where
  "cut_lines L [] = [[]]"
| "cut_lines L (c # cs) =
     (if c = 10 \<and> L cs then [] # cut_lines L cs
      else (case cut_lines L cs of [] \<Rightarrow> [[c]] | p # ps \<Rightarrow> (c # p) # ps))"

text \<open>A text that begins with a level-3 heading mark: \<open>###\<close> and a whitespace.\<close>

definition starts_heading :: "jsstring \<Rightarrow> bool" where
  "starts_heading xs \<longleftrightarrow>
     take 3 xs = str ''###'' \<and> (case drop 3 xs of [] \<Rightarrow> False | d # _ \<Rightarrow> is_space d)"

text \<open>A text that begins with a decimal number, a period and a whitespace.\<close>

definition starts_numbered :: "jsstring \<Rightarrow> bool" where
  "starts_numbered xs \<longleftrightarrow>
     takeWhile is_digit xs \<noteq> [] \<and>
     (case dropWhile is_digit xs of d # s # _ \<Rightarrow> d = 46 \<and> is_space s | _ \<Rightarrow> False)"

text \<open>A text that begins as the trigger of the numbered-list branch asks: a decimal
  number, a period, whitespace and an uppercase letter.\<close>

definition starts_numbered_upper :: "jsstring \<Rightarrow> bool" where
  "starts_numbered_upper xs \<longleftrightarrow> run numbered_trigger (0, xs) Some \<noteq> None"

text \<open>The step-delimiter strategy: the first of the four whose trigger matches.\<close>

datatype strategy = Heading | Bold | Keyword | Numbered | NoSplit

fun triggers :: "strategy \<Rightarrow> jsstring \<Rightarrow> bool" where
  "triggers Heading c = test (trigger heading_mark) c"
| "triggers Bold c = test (trigger bold_mark) c"
| "triggers Keyword c = test (trigger keyword_mark) c"
| "triggers Numbered c = test (trigger numbered_trigger) c"
| "triggers NoSplit c = True"

definition select_strategy :: "jsstring \<Rightarrow> strategy" where
  "select_strategy c =
     (case filter (\<lambda>s. triggers s c) [Heading, Bold, Keyword, Numbered] of
        [] \<Rightarrow> NoSplit
      | s # _ \<Rightarrow> s)"

fun apply_strategy :: "strategy \<Rightarrow> jsstring \<Rightarrow> jsstring list" where
  "apply_strategy Heading c = filter nonblank (regex_split (separator heading_mark) c)"
| "apply_strategy Bold c = filter nonblank (regex_split (separator bold_mark) c)"
| "apply_strategy Keyword c = filter nonblank (regex_split (separator keyword_mark) c)"
| "apply_strategy Numbered c = filter nonblank (regex_split (separator numbered_mark) c)"
| "apply_strategy NoSplit c = [c]"

text \<open>The first line of a text, and the text after its first line break (empty when
  there is none).\<close>

definition first_line :: "jsstring \<Rightarrow> jsstring" where
  "first_line xs = takeWhile (\<lambda>c. c \<noteq> 10) xs"

definition rest_lines :: "jsstring \<Rightarrow> jsstring" where
  "rest_lines xs = (case dropWhile (\<lambda>c. c \<noteq> 10) xs of [] \<Rightarrow> [] | _ # r \<Rightarrow> r)"

text \<open>
  \<open>rejects P r\<close>: the pattern \<open>r\<close> matches neither at the end of the input nor at a code
  unit that satisfies \<open>P\<close>.  Every pattern of the parser that starts with a mark rejects
  the whitespace.
\<close>

definition rejects :: "(jschar \<Rightarrow> bool) \<Rightarrow> regex \<Rightarrow> bool" where
  "rejects P r \<longleftrightarrow> (\<forall>i xs k. xs = [] \<or> P (hd xs) \<longrightarrow> run r (i, xs) k = None)"

text \<open>
  The body of a raw step: the text after its first line, trimmed.  The title its header
  yields: the first line, trimmed, without a leading \<open>###\<close>, without the \<open>**\<close> marks and
  without a step prefix.
\<close>

definition step_body :: "jsstring \<Rightarrow> jsstring" where
  "step_body raw = trim (rest_lines (trim raw))"

definition step_title :: "jsstring \<Rightarrow> jsstring" where
  "step_title raw =
     (let t0 = remove_all (word (str ''**'')) 0
                 (replace_first headingPrefix (trim (first_line (trim raw))))
      in case exec prefixRegex t0 of Some (index, n) \<Rightarrow> trim (drop n t0) | None \<Rightarrow> t0)"

text \<open>
  The step of a raw piece with its placeholders: \<open>Explanation\<close> over the title when there
  is no body, \<open>Step Details\<close> when the header yields no title.
\<close>

definition titled :: "jsstring \<Rightarrow> SolutionStep" where
  "titled raw =
     (if step_body raw = [] \<and> step_title raw \<noteq> []
        then \<lparr>title = str ''Explanation'', content = step_title raw\<rparr>
      else if step_title raw = []
        then \<lparr>title = str ''Step Details'', content = step_body raw\<rparr>
      else \<lparr>title = step_title raw, content = step_body raw\<rparr>)"

text \<open>The steps of the result: the titled raw steps that have a content, or the whole
  content as the step \<open>Analysis\<close> when none has and the content is not blank.\<close>

definition titled_steps :: "jsstring \<Rightarrow> SolutionStep list" where
  "titled_steps c =
     (let kept = filter (\<lambda>s. content s \<noteq> []) (map titled (rawSteps c))
      in if kept = [] \<and> trim c \<noteq> [] then [\<lparr>title = str ''Analysis'', content = c\<rparr>]
         else kept)"

section \<open>Evaluation on concrete inputs\<close>

lemmas char_defs = is_space_def is_line_terminator_def dot_def is_digit_def is_upper_def
  is_alpha_def canon_def lead_class_def sep_class_def

lemmas regex_defs = chr_def chr_i_def many1_def finalAnswerRegex_def leadRegex_def
  stepsHeaderRegex_def line_start_def heading_mark_def bold_mark_def keyword_mark_def
  numbered_trigger_def numbered_mark_def trigger_def separator_def headingPrefix_def
  prefixRegex_def

lemmas parser_defs = str_def trim_def exec_def test_def replace_first_def regex_split_def
  extract_final_def contentToParse_def nonblank_def rawSteps_def normalize_step_def
  finish_def build_def parseResult_def Let_def

text \<open>
  C3.  On the answer in the format the prompt asks for, with two level-3 steps and a final
  answer, \<open>parseResult\<close> returns the two steps \<open>Setup\<close> / \<open>Do X.\<close> and \<open>Solve\<close> / \<open>Do Y.\<close>,
  the final answer \<open>42\<close>, and no fallback.
\<close>

theorem parseResult_example:
  "parseResult (str ''## Solution Steps\<newline>### Step 1: Setup\<newline>Do X.\<newline>### Step 2: Solve\<newline>Do Y.\<newline>## Final Answer\<newline>42'')
     = Inr (Some \<lparr>steps = [\<lparr>title = str ''Setup'', content = str ''Do X.''\<rparr>,
                              \<lparr>title = str ''Solve'', content = str ''Do Y.''\<rparr>],
                     finalAnswer = str ''42'', fallback = False\<rparr>)"
  by (simp add: char_defs regex_defs parser_defs)

section \<open>No exception, and \<open>null\<close> only for the empty input\<close>

lemma split_nl_not_Nil: "split_nl s \<noteq> []"
  by (cases s) (auto split: list.splits)

lemma normalize_step_Inr: "\<exists>s. normalize_step raw = Inr s"
  using split_nl_not_Nil [of "trim raw"]
  by (cases "split_nl (trim raw)") (simp_all add: normalize_step_def Let_def)

lemma map_result_Inr:
  "(\<And>x. \<exists>y. f x = Inr y) \<Longrightarrow> \<exists>ys. map_result f xs = Inr ys"
proof (induction xs)
  case Nil
  show ?case by simp
next
  case (Cons x xs)
  from Cons.prems obtain y where "f x = Inr y" by blast
  moreover from Cons.IH Cons.prems obtain ys where "map_result f xs = Inr ys" by blast
  ultimately show ?case by simp
qed

lemma map_result_set:
  "map_result f xs = Inr ys \<Longrightarrow> y \<in> set ys \<Longrightarrow> \<exists>x \<in> set xs. f x = Inr y"
proof (induction xs arbitrary: ys)
  case Nil
  then show ?case by simp
next
  case (Cons x xs)
  then show ?case by (auto split: sum.splits)
qed

lemma build_Inr: "\<exists>r. build stepsText fa = Inr r"
proof -
  obtain ss where "map_result normalize_step (rawSteps (contentToParse stepsText)) = Inr ss"
    using map_result_Inr [of normalize_step, OF normalize_step_Inr] by blast
  then show ?thesis by (simp add: build_def Let_def)
qed

text \<open>
  C2.  \<open>parseResult\<close> returns \<open>null\<close> exactly on the empty string; on every other string it
  throws nothing and returns a \<open>ParsedResult\<close>.  (Every function of the model is total, so
  the evaluation of the patterns always ends.)
\<close>

theorem parseResult_null_iff:
  "(parseResult text = Inr None \<longleftrightarrow> text = []) \<and>
   (text \<noteq> [] \<longrightarrow> (\<exists>r. parseResult text = Inr (Some r)))"
proof (cases "text = []")
  case True
  then show ?thesis by (simp add: parseResult_def)
next
  case False
  obtain fa st where e: "extract_final text = (fa, st)" by (cases "extract_final text")
  obtain r where "build st fa = Inr r" using build_Inr by blast
  with False e show ?thesis by (simp add: parseResult_def)
qed

theorem parseResult_null_iff_witness:
  "(parseResult (str ''x = 1'') = Inr None \<longleftrightarrow> str ''x = 1'' = []) \<and>
   str ''x = 1'' \<noteq> [] \<and> (\<exists>r. parseResult (str ''x = 1'') = Inr (Some r))"
  using parseResult_null_iff [of "str ''x = 1''"] by (simp add: str_def)

section \<open>Trimming and lines\<close>

text \<open>Trimming.\<close>

lemma set_trim: "set (trim s) \<subseteq> set s"
  by (auto simp add: trim_def dest!: set_dropWhileD)






text \<open>The lines of a text.\<close>

lemma join_split_nl: "join_nl (split_nl xs) = xs"
proof (induction xs)
  case Nil
  show ?case by simp
next
  case (Cons c cs)
  obtain l ls where s: "split_nl cs = l # ls"
    using split_nl_not_Nil [of cs] by (cases "split_nl cs") auto
  show ?case
  proof (cases "c = 10")
    case True
    then show ?thesis using Cons.IH s by simp
  next
    case False
    then show ?thesis using Cons.IH s by (cases ls) auto
  qed
qed

lemma split_nl_first:
  "split_nl xs = first_line xs #
     (case dropWhile (\<lambda>c. c \<noteq> 10) xs of [] \<Rightarrow> [] | _ # r \<Rightarrow> split_nl r)"
proof (induction xs)
  case Nil
  show ?case by (simp add: first_line_def)
next
  case (Cons c cs)
  then show ?case by (simp add: first_line_def)
qed

lemma join_tl_split_nl: "join_nl (tl (split_nl xs)) = rest_lines xs"
proof (cases "dropWhile (\<lambda>c. c \<noteq> 10) xs")
  case Nil
  show ?thesis unfolding split_nl_first [of xs] rest_lines_def Nil by simp
next
  case (Cons d r)
  show ?thesis unfolding split_nl_first [of xs] rest_lines_def Cons by (simp add: join_split_nl)
qed







section \<open>Invariants of the result\<close>

lemma finish_invariant:
  "(fallback (finish kept c fa) \<longrightarrow>
      steps (finish kept c fa) = [] \<and> finalAnswer (finish kept c fa) = []) \<and>
   (\<not> fallback (finish kept c fa) \<longrightarrow>
      steps (finish kept c fa) \<noteq> [] \<or> finalAnswer (finish kept c fa) \<noteq> [])"
  by (simp add: finish_def)

lemma parseResult_SomeD:
  assumes "parseResult text = Inr (Some r)"
  shows "\<exists>fa st ss. extract_final text = (fa, st) \<and>
           map_result normalize_step (rawSteps (contentToParse st)) = Inr ss \<and>
           r = finish (filter (\<lambda>s. content s \<noteq> []) ss) (contentToParse st) fa"
  using assms
  by (auto simp add: parseResult_def build_def Let_def split: if_splits prod.splits sum.splits)

text \<open>
  C1.  In every result of \<open>parseResult\<close>: when \<open>fallback\<close> is set, there are no steps and
  the final answer is empty; when it is not set, there is a step or the final answer is
  not empty.
\<close>

theorem parseResult_fallback_invariant:
  assumes "parseResult text = Inr (Some r)"
  shows "(fallback r \<longrightarrow> steps r = [] \<and> finalAnswer r = []) \<and>
         (\<not> fallback r \<longrightarrow> steps r \<noteq> [] \<or> finalAnswer r \<noteq> [])"
proof -
  from parseResult_SomeD [OF assms] obtain kept c fa where "r = finish kept c fa" by blast
  then show ?thesis using finish_invariant [of kept c fa] by simp
qed

lemma parse_only_heading:
  "parseResult (str ''## Final Answer'') =
     Inr (Some \<lparr>steps = [], finalAnswer = [], fallback = True\<rparr>)"
  by (simp add: char_defs regex_defs parser_defs)

theorem parseResult_fallback_invariant_witness:
  "parseResult (str ''## Final Answer'') =
     Inr (Some \<lparr>steps = [], finalAnswer = [], fallback = True\<rparr>) \<and>
   fallback \<lparr>steps = [], finalAnswer = [], fallback = True\<rparr> \<and>
   steps \<lparr>steps = [], finalAnswer = [], fallback = True\<rparr> = [] \<and>
   finalAnswer \<lparr>steps = [], finalAnswer = [], fallback = True\<rparr> = []"
  using parseResult_fallback_invariant [OF parse_only_heading] parse_only_heading by simp

lemma placeholders_not_Nil:
  "str ''Explanation'' \<noteq> []" "str ''Step Details'' \<noteq> []" "str ''Analysis'' \<noteq> []"
  by (simp_all add: str_def)

lemma normalize_step_titled: "normalize_step raw = Inr (titled raw)"
proof -
  obtain ls where sp: "split_nl (trim raw) = first_line (trim raw) # ls"
      "join_nl ls = rest_lines (trim raw)"
    using split_nl_first [of "trim raw"] join_tl_split_nl [of "trim raw"] by (metis list.sel(3))
  show ?thesis
    unfolding normalize_step_def sp
    by (auto simp add: Let_def sp titled_def step_title_def step_body_def placeholders_not_Nil)
qed

lemma map_result_titled: "map_result normalize_step xs = Inr (map titled xs)"
  by (induction xs) (simp_all add: normalize_step_titled)

lemma titled_title: "title (titled raw) \<noteq> []"
  by (simp add: titled_def placeholders_not_Nil)

lemma finish_steps:
  "steps (finish kept c fa) =
     (if kept = [] \<and> trim c \<noteq> [] then [\<lparr>title = str ''Analysis'', content = c\<rparr>]
      else kept)"
  by (simp add: finish_def)

text \<open>
  C10.  Every step of a result of \<open>parseResult\<close> has a title that is not empty, by the
  three placeholders: the steps are the raw steps, each titled by \<open>titled\<close> (\<open>Step Details\<close>
  when the header yields no title, \<open>Explanation\<close> over the demoted title when there is no
  body), that have a content; and when none has one and the content is not blank, the
  one step \<open>Analysis\<close> over the whole content.
\<close>

theorem parseResult_titles_nonempty:
  assumes "parseResult text = Inr (Some r)"
  shows "steps r = titled_steps (contentToParse (snd (extract_final text))) \<and>
         (\<forall>s \<in> set (steps r). title s \<noteq> [])"
proof -
  obtain fa st where e: "extract_final text = (fa, st)" by (cases "extract_final text")
  have r: "r = finish (filter (\<lambda>s. content s \<noteq> []) (map titled (rawSteps (contentToParse st))))
                 (contentToParse st) fa"
    using assms e
    by (simp add: parseResult_def build_def Let_def map_result_titled split: if_splits)
  have a: "steps r = titled_steps (contentToParse st)"
    unfolding r titled_steps_def Let_def by (rule finish_steps)
  have "title s \<noteq> []" if "s \<in> set (titled_steps (contentToParse st))" for s
    using that titled_title
    by (auto simp add: titled_steps_def Let_def placeholders_not_Nil split: if_splits)
  then show ?thesis using a e by simp
qed

lemma placeholder_examples:
  "parseResult (str ''### Step 1:\<newline>body\<newline>### Step 2: inline'') =
     Inr (Some \<lparr>steps = [\<lparr>title = str ''Step Details'', content = str ''body''\<rparr>,
                              \<lparr>title = str ''Explanation'', content = str ''inline''\<rparr>],
                     finalAnswer = [], fallback = False\<rparr>)"
  "parseResult (str ''### Step 1:'') =
     Inr (Some \<lparr>steps = [\<lparr>title = str ''Analysis'', content = str ''### Step 1:''\<rparr>],
                     finalAnswer = [], fallback = False\<rparr>)"
  by (simp_all add: char_defs regex_defs parser_defs)

theorem parseResult_titles_nonempty_witness:
  "parseResult (str ''### Step 1:\<newline>body\<newline>### Step 2: inline'') =
     Inr (Some \<lparr>steps = [\<lparr>title = str ''Step Details'', content = str ''body''\<rparr>,
                              \<lparr>title = str ''Explanation'', content = str ''inline''\<rparr>],
                     finalAnswer = [], fallback = False\<rparr>) \<and>
   titled_steps (contentToParse (snd (extract_final
       (str ''### Step 1:\<newline>body\<newline>### Step 2: inline'')))) =
     [\<lparr>title = str ''Step Details'', content = str ''body''\<rparr>,
      \<lparr>title = str ''Explanation'', content = str ''inline''\<rparr>] \<and>
   title \<lparr>title = str ''Step Details'', content = str ''body''\<rparr> \<noteq> [] \<and>
   title \<lparr>title = str ''Explanation'', content = str ''inline''\<rparr> \<noteq> [] \<and>
   parseResult (str ''### Step 1:'') =
     Inr (Some \<lparr>steps = [\<lparr>title = str ''Analysis'', content = str ''### Step 1:''\<rparr>],
                     finalAnswer = [], fallback = False\<rparr>) \<and>
   titled_steps (contentToParse (snd (extract_final (str ''### Step 1:'')))) =
     [\<lparr>title = str ''Analysis'', content = str ''### Step 1:''\<rparr>] \<and>
   title \<lparr>title = str ''Analysis'', content = str ''### Step 1:''\<rparr> \<noteq> []"
  using parseResult_titles_nonempty [OF placeholder_examples(1)]
    parseResult_titles_nonempty [OF placeholder_examples(2)] placeholder_examples
  by simp

section \<open>Patterns that need a mark\<close>

lemma rejects_Cls: "(\<And>c. P c \<Longrightarrow> \<not> Q c) \<Longrightarrow> rejects P (Cls Q)"
  by (auto simp add: rejects_def split: list.splits)

lemma rejects_Seq: "rejects P a \<Longrightarrow> rejects P (Seq a b)"
  by (simp add: rejects_def)

lemma rejects_Alt: "rejects P a \<Longrightarrow> rejects P b \<Longrightarrow> rejects P (Alt a b)"
  by (simp add: rejects_def)

lemma rejects_blank_chr_i: "\<not> is_space c \<Longrightarrow> c < 97 \<Longrightarrow> rejects is_space (chr_i c)"
  unfolding chr_i_def by (rule rejects_Cls) (auto simp add: char_defs split: if_splits)

lemma rejects_blank_chr: "\<not> is_space c \<Longrightarrow> rejects is_space (chr c)"
  unfolding chr_def by (rule rejects_Cls) auto

lemma rejects_blank_digits: "rejects is_space (many1 is_digit)"
  unfolding many1_def
  by (rule rejects_Seq, rule rejects_Cls) (auto simp add: char_defs)

lemma rejects_blank_patterns:
  "rejects is_space finalAnswerRegex" "rejects is_space stepsHeaderRegex"
  "rejects is_space heading_mark" "rejects is_space bold_mark"
  "rejects is_space keyword_mark" "rejects is_space numbered_trigger"
  unfolding finalAnswerRegex_def stepsHeaderRegex_def heading_mark_def bold_mark_def
    keyword_mark_def numbered_trigger_def
  by (simp_all add: str_def rejects_Seq rejects_Alt rejects_blank_chr_i
        rejects_blank_chr rejects_blank_digits is_space_def)

lemma exec_from_rejects:
  "rejects P r \<Longrightarrow> list_all P xs \<Longrightarrow> exec_from r i xs = None"
  by (induction xs arbitrary: i) (simp_all add: rejects_def)

lemma exec_from_trigger_rejects:
  "rejects P m \<Longrightarrow> list_all P xs \<Longrightarrow> exec_from (trigger m) i xs = None"
proof (induction xs arbitrary: i)
  case Nil
  then show ?case by (simp add: trigger_def line_start_def chr_def rejects_def)
next
  case (Cons c cs)
  have a: "run m (j, cs) k = None" for j k
    using Cons.prems by (cases cs) (simp_all add: rejects_def)
  have b: "run m (j, c # cs) k = None" for j k
    using Cons.prems by (simp add: rejects_def)
  have "run (trigger m) (i, c # cs) Some = None"
    by (simp add: trigger_def line_start_def chr_def a b)
  moreover have "exec_from (trigger m) (Suc i) cs = None"
    using Cons by simp
  ultimately show ?case by simp
qed

section \<open>Blank input\<close>

lemma trim_Nil: "trim [] = []"
  by (simp add: trim_def)

lemma trim_blank: "list_all is_space xs \<Longrightarrow> trim xs = []"
proof -
  assume "list_all is_space xs"
  then have d: "dropWhile is_space xs = []" by (induction xs) simp_all
  show ?thesis unfolding trim_def d by simp
qed

lemma normalize_step_blank:
  "trim raw = [] \<Longrightarrow> normalize_step raw = Inr \<lparr>title = str ''Step Details'', content = []\<rparr>"
  by (simp add: normalize_step_def Let_def exec_def replace_first_def headingPrefix_def
        prefixRegex_def trim_Nil str_def chr_def chr_i_def many1_def)

text \<open>
  C9.  On a string that is not empty and holds only whitespace, \<open>parseResult\<close> does not
  return \<open>null\<close>: it returns the result without steps, with the empty final answer, and
  with \<open>fallback\<close> set.
\<close>

theorem parseResult_blank:
  assumes "text \<noteq> []" and "list_all is_space text"
  shows "parseResult text = Inr (Some \<lparr>steps = [], finalAnswer = [], fallback = True\<rparr>)"
proof -
  have f: "extract_final text = ([], text)"
    using assms(2) by (simp add: extract_final_def exec_def exec_from_rejects [of is_space] rejects_blank_patterns)
  have c: "contentToParse text = text"
    using assms(2) by (simp add: contentToParse_def exec_def exec_from_rejects [of is_space] rejects_blank_patterns)
  have r: "rawSteps text = [text]"
    using assms(2)
    by (simp add: rawSteps_def test_def exec_def exec_from_trigger_rejects [of is_space] rejects_blank_patterns)
  have t: "trim text = []" using assms(2) by (rule trim_blank)
  show ?thesis
    using assms(1) by (simp add: parseResult_def f build_def c r normalize_step_blank t finish_def)
qed

theorem parseResult_blank_witness:
  "str '' '' \<noteq> [] \<and> list_all is_space (str '' '') \<and>
   parseResult (str '' '') = Inr (Some \<lparr>steps = [], finalAnswer = [], fallback = True\<rparr>)"
  using parseResult_blank [of "str '' ''"] by (simp add: str_def is_space_def)

section \<open>Closed forms of the patterns\<close>

lemma run_word:
  "run (word w) (i, xs) k =
     (if take (length w) xs = w then k (i + length w, drop (length w) xs) else None)"
proof (induction w arbitrary: i xs)
  case Nil
  show ?case by simp
next
  case (Cons c w)
  show ?case by (cases xs) (auto simp add: chr_def Cons.IH)
qed

lemma run_word_i:
  "run (word_i w) (i, xs) k =
     (if map canon (take (length w) xs) = map canon w
      then k (i + length w, drop (length w) xs) else None)"
proof (induction w arbitrary: i xs)
  case Nil
  show ?case by simp
next
  case (Cons c w)
  show ?case by (cases xs) (auto simp add: chr_i_def Cons.IH)
qed

lemma star_greedy:
  "k (i + length (takeWhile P xs), dropWhile P xs) = Some r \<Longrightarrow> star P i xs k = Some r"
  by (induction xs arbitrary: i) auto

lemma star_unique:
  "(\<And>j c cs. P c \<Longrightarrow> k (j, c # cs) = None) \<Longrightarrow>
     star P i xs k = k (i + length (takeWhile P xs), dropWhile P xs)"
  by (induction xs arbitrary: i) (auto split: option.splits)

lemma star_Some: "star P i xs Some = Some (i + length (takeWhile P xs), dropWhile P xs)"
  by (rule star_greedy) simp

lemma canon_words:
  "map canon (str ''##'') = str ''##''" "map canon (str ''**'') = str ''**''"
  "map canon (str ''Final Answer'') = str ''FINAL ANSWER''"
  "length (str ''##'') = 2" "length (str ''**'') = 2" "length (str ''Final Answer'') = 12"
  by (simp_all add: str_def canon_def)

lemma space_not_F: "is_space c \<Longrightarrow> canon c \<noteq> canon 70"
  by (auto simp add: is_space_def canon_def)

lemma run_finalAnswerRegex:
  "run finalAnswerRegex (i, xs) Some =
     (case final_marker_len xs of None \<Rightarrow> None | Some n \<Rightarrow> Some (i + n, drop n xs))"
proof -
  let ?k2 = "\<lambda>st. run (word_i (str ''Final Answer'')) st Some"
  have fa: "str ''Final Answer'' = 70 # str ''inal Answer''" by (simp add: str_def)
  have k2: "?k2 (j, c # cs) = None" if "is_space c" for j c cs
    using space_not_F [OF that] by (simp add: fa chr_i_def)
  have K: "star is_space j ys ?k2 =
             (if map canon (take 12 (dropWhile is_space ys)) = str ''FINAL ANSWER''
              then Some (j + length (takeWhile is_space ys) + 12,
                         drop 12 (dropWhile is_space ys))
              else None)" for j ys
    using star_unique [of is_space ?k2 j ys] k2 by (simp add: run_word_i canon_words)
  have ne: "str ''##'' \<noteq> str ''**''" by (simp add: str_def)
  have d: "drop 12 (dropWhile is_space (drop 2 xs)) =
           drop (2 + length (takeWhile is_space (drop 2 xs)) + 12) xs"
    by (simp add: dropWhile_eq_drop add.commute)
  show ?thesis
  proof (cases "map canon (take 2 xs) = str ''##''")
    case True
    then show ?thesis
      unfolding finalAnswerRegex_def
      by (simp add: run_word_i canon_words K final_marker_len_def d ne)
  next
    case False
    then show ?thesis
      unfolding finalAnswerRegex_def
      by (simp add: run_word_i canon_words K final_marker_len_def d)
  qed
qed

text \<open>\<open>exec\<close> returns the leftmost index at which the pattern matches.\<close>

lemma exec_from_leftmost:
  assumes "\<And>i ys. run r (i, ys) Some =
                     (case M ys of None \<Rightarrow> None | Some n \<Rightarrow> Some (i + n, drop n ys))"
    and "j \<le> length xs" and "M (drop j xs) = Some n"
    and "\<And>j'. j' < j \<Longrightarrow> M (drop j' xs) = None"
  shows "exec_from r i xs = Some (i + j, n)"
  using assms(2-4)
proof (induction xs arbitrary: i j)
  case Nil
  then show ?case by (simp add: assms(1))
next
  case (Cons c cs)
  show ?case
  proof (cases j)
    case 0
    then show ?thesis using Cons.prems by (simp add: assms(1))
  next
    case (Suc j0)
    have "M (c # cs) = None" using Cons.prems(3) [of 0] Suc by simp
    moreover have "exec_from r (Suc i) cs = Some (Suc i + j0, n)"
    proof (rule Cons.IH)
      show "j0 \<le> length cs" using Cons.prems(1) Suc by simp
      show "M (drop j0 cs) = Some n" using Cons.prems(2) Suc by simp
      show "M (drop j' cs) = None" if "j' < j0" for j'
        using Cons.prems(3) [of "Suc j'"] that Suc by simp
    qed
    ultimately show ?thesis using Suc by (simp add: assms(1))
  qed
qed

lemma exec_from_Bol: "0 < i \<Longrightarrow> exec_from (Seq Bol r) i xs = None"
  by (induction xs arbitrary: i) simp_all

text \<open>\<open>s.replace(/^[:\s*]+/, '')\<close> drops the leading colons, asterisks and whitespace.\<close>

lemma replace_first_leadRegex: "replace_first leadRegex s = dropWhile lead_class s"
proof (cases s)
  case Nil
  then show ?thesis by (simp add: replace_first_def exec_def leadRegex_def many1_def)
next
  case (Cons c cs)
  show ?thesis
  proof (cases "lead_class c")
    case True
    then show ?thesis
      using Cons
      by (simp add: replace_first_def exec_def leadRegex_def many1_def star_Some
            dropWhile_eq_drop)
  next
    case False
    then show ?thesis
      using Cons exec_from_Bol [of "Suc 0" "many1 lead_class" cs]
      by (simp add: replace_first_def exec_def leadRegex_def many1_def)
  qed
qed

text \<open>
  C4, as the code has it.  When the input holds a final-answer marker (\<open>##\<close> or \<open>**\<close>,
  then whitespace or none, then \<open>Final Answer\<close> in any case) and the first one starts at
  index \<open>i\<close> and is \<open>n\<close> long, the final answer is the text after that marker without its
  leading colons, asterisks and whitespace, trimmed, whatever the steps are; and the result
  is the one that steps 2 to 5 build from the trimmed text before the marker.
\<close>

theorem finalAnswer_after_first_marker:
  assumes "i \<le> length text" and "final_marker_len (drop i text) = Some n"
    and "\<forall>j<i. final_marker_len (drop j text) = None"
  shows "\<exists>r. parseResult text = Inr (Some r) \<and>
             finalAnswer r = trim (dropWhile lead_class (drop (i + n) text)) \<and>
             build (trim (take i text)) (finalAnswer r) = Inr r"
proof -
  have ne: "text \<noteq> []"
    using assms(1,2) by (auto simp add: final_marker_len_def str_def split: if_splits)
  have "exec_from finalAnswerRegex 0 text = Some (0 + i, n)"
    using assms by (intro exec_from_leftmost [where M = final_marker_len] run_finalAnswerRegex) auto
  then have e: "extract_final text =
                  (trim (dropWhile lead_class (drop (i + n) text)), trim (take i text))"
    by (simp add: extract_final_def exec_def replace_first_leadRegex)
  obtain r where b: "build (trim (take i text)) (trim (dropWhile lead_class (drop (i + n) text))) = Inr r"
    using build_Inr by blast
  have fa: "finalAnswer r = trim (dropWhile lead_class (drop (i + n) text))"
    using b by (auto simp add: build_def Let_def finish_def split: sum.splits if_splits)
  show ?thesis using ne e b fa by (simp add: parseResult_def)
qed

lemma first_index_SomeD:
  "first_index P k xs = Some i \<Longrightarrow>
     k \<le> i \<and> i - k \<le> length xs \<and> P (drop (i - k) xs) \<and> (\<forall>j < i - k. \<not> P (drop j xs))"
proof (induction xs arbitrary: k)
  case Nil
  then show ?case by (simp split: if_splits)
next
  case (Cons c cs)
  show ?case
  proof (cases "P (c # cs)")
    case True
    then show ?thesis using Cons.prems by simp
  next
    case False
    then have "first_index P (Suc k) cs = Some i" using Cons.prems by simp
    from Cons.IH [OF this] have
      ih: "Suc k \<le> i" "i - Suc k \<le> length cs" "P (drop (i - Suc k) cs)"
          "\<forall>j < i - Suc k. \<not> P (drop j cs)"
      by simp_all
    have d: "i - k = Suc (i - Suc k)" using ih(1) by simp
    have "\<not> P (drop j (c # cs))" if "j < i - k" for j
      using that False ih(4) d by (cases j) simp_all
    then show ?thesis using ih d by simp
  qed
qed

text \<open>
  C4, as it is stated, fails on an input with two markers, the first with a space after
  \<open>##\<close>.  Read with "immediately followed", the first marker is the second one, at index 28,
  and the text after it gives the final answer \<open>c\<close>; the code answers
  \<open>b ##Final Answer: c\<close>.  Read with the whitespace allowed, the first marker is at index 9
  and the text before it is \<open>Step 1: \<close> with its line break; the code extracts the steps
  from that text trimmed, which shows in the content of the step \<open>Analysis\<close>.
\<close>

theorem finalAnswer_marker_counterexample:
  "first_index strict_final_marker 0
     (str ''Step 1: \<newline>## Final Answer: b ##Final Answer: c'') = Some 28 \<and>
   trim (dropWhile lead_class
     (drop (28 + 14) (str ''Step 1: \<newline>## Final Answer: b ##Final Answer: c''))) = str ''c'' \<and>
   first_index final_marker 0
     (str ''Step 1: \<newline>## Final Answer: b ##Final Answer: c'') = Some 9 \<and>
   take 9 (str ''Step 1: \<newline>## Final Answer: b ##Final Answer: c'') = str ''Step 1: \<newline>'' \<and>
   parseResult (str ''Step 1: \<newline>## Final Answer: b ##Final Answer: c'') =
     Inr (Some \<lparr>steps = [\<lparr>title = str ''Analysis'', content = str ''Step 1:''\<rparr>],
                     finalAnswer = str ''b ##Final Answer: c'', fallback = False\<rparr>) \<and>
   build (str ''Step 1: \<newline>'') (str ''b ##Final Answer: c'') =
     Inr \<lparr>steps = [\<lparr>title = str ''Analysis'', content = str ''Step 1: \<newline>''\<rparr>],
               finalAnswer = str ''b ##Final Answer: c'', fallback = False\<rparr>"
  by (simp add: char_defs regex_defs parser_defs strict_final_marker_def final_marker_def
        final_marker_len_def)

lemma parse_with_marker:
  "parseResult (str ''Do X.\<newline>## Final Answer\<newline>42'') =
     Inr (Some \<lparr>steps = [\<lparr>title = str ''Explanation'', content = str ''Do X.''\<rparr>],
                     finalAnswer = str ''42'', fallback = False\<rparr>)"
  by (simp add: char_defs regex_defs parser_defs)

theorem finalAnswer_after_first_marker_witness:
  "first_index final_marker 0 (str ''Do X.\<newline>## Final Answer\<newline>42'') = Some 6 \<and>
   final_marker_len (drop 6 (str ''Do X.\<newline>## Final Answer\<newline>42'')) = Some 15 \<and>
   (\<exists>r. parseResult (str ''Do X.\<newline>## Final Answer\<newline>42'') = Inr (Some r) \<and>
        finalAnswer r =
          trim (dropWhile lead_class (drop (6 + 15) (str ''Do X.\<newline>## Final Answer\<newline>42''))) \<and>
        build (trim (take 6 (str ''Do X.\<newline>## Final Answer\<newline>42''))) (finalAnswer r) = Inr r) \<and>
   trim (dropWhile lead_class (drop (6 + 15) (str ''Do X.\<newline>## Final Answer\<newline>42''))) = str ''42'' \<and>
   trim (take 6 (str ''Do X.\<newline>## Final Answer\<newline>42'')) = str ''Do X.''"
proof -
  let ?t = "str ''Do X.\<newline>## Final Answer\<newline>42''"
  have h1: "6 \<le> length ?t" by (simp add: str_def)
  have h2: "final_marker_len (drop 6 ?t) = Some 15"
    by (simp add: str_def final_marker_len_def char_defs)
  have f: "first_index final_marker 0 ?t = Some 6"
    by (simp add: str_def final_marker_def final_marker_len_def char_defs)
  from first_index_SomeD [OF f]
  have h3: "\<forall>j<6. final_marker_len (drop j ?t) = None"
    by (simp add: final_marker_def)
  have v: "trim (dropWhile lead_class (drop (6 + 15) ?t)) = str ''42''"
    "trim (take 6 ?t) = str ''Do X.''"
    by (simp_all add: str_def trim_def char_defs)
  from finalAnswer_after_first_marker [OF h1 h2 h3] h2 f v show ?thesis by blast
qed

section \<open>The step-delimiter strategy\<close>

lemma cut_lines_not_Nil: "cut_lines L xs \<noteq> []"
  by (induction xs) (auto split: list.splits)

lemma run_Ahead:
  assumes "\<And>i xs. run m (i, xs) Some = None \<longleftrightarrow> \<not> L xs"
  shows "run (Ahead m) st Some = (if L (snd st) then Some st else None)"
  using assms [of "fst st" "snd st"] by (cases "run m st Some") auto

lemma run_separator:
  assumes "\<And>i xs. run m (i, xs) Some = None \<longleftrightarrow> \<not> L xs"
  shows "run (separator m) (q, c # cs) Some =
           (if q = 0 \<and> L (c # cs) then Some (0, c # cs)
            else if c = 10 \<and> L cs then Some (Suc q, cs) else None)"
  unfolding separator_def line_start_def chr_def
  by (simp add: run_Ahead [OF assms] del: run.simps(8))

lemma split_loop_separator:
  assumes L: "\<And>i xs. run m (i, xs) Some = None \<longleftrightarrow> \<not> L xs"
    and nl: "\<And>cs. \<not> L (10 # cs)"
  shows "p \<le> q \<Longrightarrow>
         split_loop (separator m) p acc q xs =
           (case cut_lines L xs of [] \<Rightarrow> [acc] | piece # rest \<Rightarrow> (acc @ piece) # rest)"
proof (induction xs arbitrary: p acc q)
  case Nil
  show ?case by simp
next
  case (Cons c cs)
  obtain piece rest where pr: "cut_lines L cs = piece # rest"
    using cut_lines_not_Nil [of L cs] by (cases "cut_lines L cs") auto
  have adv: "split_loop (separator m) p (acc @ [c]) (Suc q) cs = (acc @ c # piece) # rest"
    using Cons.IH [of p "Suc q" "acc @ [c]"] Cons.prems pr by simp
  have cut: "split_loop (separator m) (Suc q) [] (Suc q) cs = piece # rest"
    using Cons.IH [of "Suc q" "Suc q" "[]"] pr by simp
  show ?case
  proof (cases "q = 0 \<and> L (c # cs)")
    case True
    then have "c \<noteq> 10" using nl by auto
    moreover have "p = 0" using True Cons.prems by simp
    ultimately show ?thesis using True adv pr by (simp add: run_separator [OF L])
  next
    case False
    show ?thesis
    proof (cases "c = 10 \<and> L cs")
      case True
      then show ?thesis using False cut pr Cons.prems nl by (simp add: run_separator [OF L])
    next
      case no: False
      then show ?thesis using False adv pr by (auto simp add: run_separator [OF L])
    qed
  qed
qed

lemma regex_split_separator:
  assumes L: "\<And>i xs. run m (i, xs) Some = None \<longleftrightarrow> \<not> L xs"
    and nl: "\<And>cs. \<not> L (10 # cs)" and e: "\<not> L []"
  shows "regex_split (separator m) s = cut_lines L s"
proof (cases s)
  case Nil
  have "run m (0, []) Some = None" using L e by blast
  then show ?thesis
    using Nil by (simp add: regex_split_def separator_def line_start_def chr_def)
next
  case (Cons c cs)
  obtain piece rest where pr: "cut_lines L s = piece # rest"
    using cut_lines_not_Nil [of L s] by (cases "cut_lines L s") auto
  then show ?thesis
    using Cons split_loop_separator [OF L nl, of 0 0 "[]" s] by (simp add: regex_split_def)
qed

lemma run_many1_Some:
  "run (many1 P) (j, ys) Some =
     (case ys of [] \<Rightarrow> None
      | d # ds \<Rightarrow> if P d then Some (Suc j + length (takeWhile P ds), dropWhile P ds) else None)"
  by (cases ys) (simp_all add: many1_def star_Some)

lemma run_many1_unique:
  "(\<And>j c cs. P c \<Longrightarrow> k (j, c # cs) = None) \<Longrightarrow>
     run (many1 P) (i, xs) k =
       (case xs of [] \<Rightarrow> None
        | c # cs \<Rightarrow> if P c then k (Suc i + length (takeWhile P cs), dropWhile P cs) else None)"
  by (cases xs) (simp_all add: many1_def star_unique)

lemma length_marks: "length (str ''###'') = 3"
  by (simp add: str_def)

lemma run_heading_mark:
  "run heading_mark (i, xs) Some = None \<longleftrightarrow> \<not> starts_heading xs"
  unfolding heading_mark_def starts_heading_def
  by (simp add: run_word run_many1_Some length_marks split: list.splits)

lemma digit_not_period: "is_digit c \<Longrightarrow> c \<noteq> 46"
  by (simp add: is_digit_def)

lemma run_numbered_mark:
  "run numbered_mark (i, xs) Some = None \<longleftrightarrow> \<not> starts_numbered xs"
proof -
  let ?k = "\<lambda>st'. run (chr 46) st' (\<lambda>st'. run (many1 is_space) st' Some)"
  have k: "?k (j, c # cs) = None" if "is_digit c" for j c cs
    using digit_not_period [OF that] by (simp add: chr_def)
  have "run numbered_mark (i, xs) Some = run (many1 is_digit) (i, xs) ?k"
    by (simp add: numbered_mark_def)
  also have "\<dots> = (case xs of [] \<Rightarrow> None
        | c # cs \<Rightarrow> if is_digit c
            then ?k (Suc i + length (takeWhile is_digit cs), dropWhile is_digit cs) else None)"
    by (rule run_many1_unique) (rule k)
  finally have r: "run numbered_mark (i, xs) Some =
      (case xs of [] \<Rightarrow> None
        | c # cs \<Rightarrow> if is_digit c
            then ?k (Suc i + length (takeWhile is_digit cs), dropWhile is_digit cs) else None)" .
  have kc: "?k (j, ys) = None \<longleftrightarrow>
              \<not> (case ys of d # s # _ \<Rightarrow> d = 46 \<and> is_space s | _ \<Rightarrow> False)" for j ys
  proof (cases ys)
    case Nil
    then show ?thesis by (simp add: chr_def)
  next
    case (Cons d r)
    then show ?thesis by (cases r) (simp_all add: chr_def run_many1_Some)
  qed
  show ?thesis
  proof (cases xs)
    case Nil
    then show ?thesis using r by (simp add: starts_numbered_def)
  next
    case (Cons c cs)
    show ?thesis
    proof (cases "is_digit c")
      case True
      then show ?thesis
        using r kc [of "Suc i + length (takeWhile is_digit cs)" "dropWhile is_digit cs"]
        by (simp add: Cons starts_numbered_def)
    next
      case False
      then show ?thesis using r by (simp add: Cons starts_numbered_def)
    qed
  qed
qed

lemma starts_heading_simps: "\<not> starts_heading (10 # cs)" "\<not> starts_heading []"
  by (simp_all add: starts_heading_def str_def)

lemma starts_numbered_simps: "\<not> starts_numbered (10 # cs)" "\<not> starts_numbered []"
  by (simp_all add: starts_numbered_def is_digit_def)

lemma split_heading: "regex_split (separator heading_mark) c = cut_lines starts_heading c"
  by (rule regex_split_separator) (simp_all add: run_heading_mark starts_heading_simps)

lemma split_numbered: "regex_split (separator numbered_mark) c = cut_lines starts_numbered c"
  by (rule regex_split_separator) (simp_all add: run_numbered_mark starts_numbered_simps)

text \<open>
  C5.  The branch of \<open>rawSteps\<close> is the strategy selected by first match, in the order
  heading, bold, keyword, numbered list, and the one selected is the only one applied.  In
  particular, when the level-3 heading pattern matches somewhere, the content is cut
  exactly before the lines (after the first) that begin with \<open>###\<close> and a whitespace,
  whatever other patterns occur, and the blank pieces are dropped; when no trigger matches,
  the content is kept as one piece.
\<close>

theorem rawSteps_first_match:
  "rawSteps c = apply_strategy (select_strategy c) c \<and>
   (triggers Heading c \<longrightarrow> rawSteps c = filter nonblank (cut_lines starts_heading c)) \<and>
   (\<not> triggers Heading c \<and> \<not> triggers Bold c \<and> \<not> triggers Keyword c \<and>
    \<not> triggers Numbered c \<longrightarrow> rawSteps c = [c])"
  by (simp add: rawSteps_def select_strategy_def split_heading)

text \<open>
  C7, as the code has it.  When the numbered-list branch is the one selected, the content
  is cut exactly before the lines (after the first) that begin with a decimal number, a
  period and a whitespace, an uppercase letter following or not, and nowhere else; the
  blank pieces are dropped.
\<close>

theorem numbered_split:
  assumes "\<not> test (trigger heading_mark) c" and "\<not> test (trigger bold_mark) c"
    and "\<not> test (trigger keyword_mark) c" and "test (trigger numbered_trigger) c"
  shows "rawSteps c = filter nonblank (cut_lines starts_numbered c)"
  using assms by (simp add: rawSteps_def split_numbered)

lemmas spec_defs = starts_heading_def starts_numbered_def starts_numbered_upper_def
  select_strategy_def

theorem rawSteps_first_match_witness:
  "triggers Heading (str ''### One\<newline>1. Alpha\<newline>### Two\<newline>x'') \<and>
   triggers Numbered (str ''### One\<newline>1. Alpha\<newline>### Two\<newline>x'') \<and>
   rawSteps (str ''### One\<newline>1. Alpha\<newline>### Two\<newline>x'') =
     filter nonblank (cut_lines starts_heading (str ''### One\<newline>1. Alpha\<newline>### Two\<newline>x'')) \<and>
   filter nonblank (cut_lines starts_heading (str ''### One\<newline>1. Alpha\<newline>### Two\<newline>x'')) =
     [str ''### One\<newline>1. Alpha'', str ''### Two\<newline>x''] \<and>
   \<not> triggers Heading (str ''x = 2'') \<and> \<not> triggers Bold (str ''x = 2'') \<and>
   \<not> triggers Keyword (str ''x = 2'') \<and> \<not> triggers Numbered (str ''x = 2'') \<and>
   rawSteps (str ''x = 2'') = [str ''x = 2'']"
proof -
  let ?c = "str ''### One\<newline>1. Alpha\<newline>### Two\<newline>x''"
  have h: "triggers Heading ?c" "triggers Numbered ?c"
    by (simp_all add: char_defs regex_defs parser_defs)
  have p: "filter nonblank (cut_lines starts_heading ?c) =
             [str ''### One\<newline>1. Alpha'', str ''### Two\<newline>x'']"
    by (simp add: char_defs parser_defs spec_defs)
  have n: "\<not> triggers Heading (str ''x = 2'')" "\<not> triggers Bold (str ''x = 2'')"
    "\<not> triggers Keyword (str ''x = 2'')" "\<not> triggers Numbered (str ''x = 2'')"
    by (simp_all add: char_defs regex_defs parser_defs)
  have a: "rawSteps ?c = filter nonblank (cut_lines starts_heading ?c)"
    using rawSteps_first_match [of ?c] h(1) by blast
  have b: "rawSteps (str ''x = 2'') = [str ''x = 2'']"
    using rawSteps_first_match [of "str ''x = 2''"] n by blast
  show ?thesis using h a p n b by blast
qed

text \<open>
  C7, as it is stated, fails on a list whose second item starts with a lowercase letter:
  the branch is selected because of the first line, and the content is cut before the
  second line too, which does not begin with a number, a period, whitespace and an
  uppercase letter.  Cutting only before such lines would leave one piece.
\<close>

theorem numbered_split_counterexample:
  "\<not> test (trigger heading_mark) (str ''1. Alpha\<newline>2. beta'') \<and>
   \<not> test (trigger bold_mark) (str ''1. Alpha\<newline>2. beta'') \<and>
   \<not> test (trigger keyword_mark) (str ''1. Alpha\<newline>2. beta'') \<and>
   test (trigger numbered_trigger) (str ''1. Alpha\<newline>2. beta'') \<and>
   rawSteps (str ''1. Alpha\<newline>2. beta'') = [str ''1. Alpha'', str ''2. beta''] \<and>
   \<not> starts_numbered_upper (str ''2. beta'') \<and>
   filter nonblank (cut_lines starts_numbered_upper (str ''1. Alpha\<newline>2. beta'')) =
     [str ''1. Alpha\<newline>2. beta'']"
  by (simp add: char_defs regex_defs parser_defs spec_defs)

theorem numbered_split_witness:
  "\<not> test (trigger heading_mark) (str ''1. Add\<newline>2. then divide\<newline>by 2'') \<and>
   \<not> test (trigger bold_mark) (str ''1. Add\<newline>2. then divide\<newline>by 2'') \<and>
   \<not> test (trigger keyword_mark) (str ''1. Add\<newline>2. then divide\<newline>by 2'') \<and>
   test (trigger numbered_trigger) (str ''1. Add\<newline>2. then divide\<newline>by 2'') \<and>
   rawSteps (str ''1. Add\<newline>2. then divide\<newline>by 2'') =
     filter nonblank (cut_lines starts_numbered (str ''1. Add\<newline>2. then divide\<newline>by 2'')) \<and>
   filter nonblank (cut_lines starts_numbered (str ''1. Add\<newline>2. then divide\<newline>by 2'')) =
     [str ''1. Add'', str ''2. then divide\<newline>by 2'']"
proof -
  let ?c = "str ''1. Add\<newline>2. then divide\<newline>by 2''"
  have h: "\<not> test (trigger heading_mark) ?c" "\<not> test (trigger bold_mark) ?c"
    "\<not> test (trigger keyword_mark) ?c" "test (trigger numbered_trigger) ?c"
    by (simp_all add: char_defs regex_defs parser_defs)
  have p: "filter nonblank (cut_lines starts_numbered ?c) =
             [str ''1. Add'', str ''2. then divide\<newline>by 2'']"
    by (simp add: char_defs parser_defs spec_defs)
  show ?thesis using numbered_split [OF h] h p by blast
qed

section \<open>A plain paragraph\<close>








section \<open>Determinism\<close>

lemma match_new:
  "string_match (fst (new_regexp r False h)) s (snd (new_regexp r False h)) =
     (exec r s, snd (new_regexp r False h))"
  by (simp add: string_match_def regexp_exec_def new_regexp_def exec_def Let_def
        split: option.splits)

lemma test_new:
  "regexp_test (fst (new_regexp r False h)) s (snd (new_regexp r False h)) =
     (test r s, snd (new_regexp r False h))"
  by (simp add: regexp_test_def regexp_exec_def new_regexp_def exec_def test_def Let_def
        split: option.splits)

lemma replace_new:
  "string_replace (fst (new_regexp r False h)) s (snd (new_regexp r False h)) =
     (replace_first r s, snd (new_regexp r False h))"
  by (simp add: string_replace_def regexp_exec_def new_regexp_def exec_def replace_first_def
        Let_def split: option.splits)

lemma replace_all_new:
  "string_replace (fst (new_regexp r True h)) s (snd (new_regexp r True h)) =
     (remove_all r 0 s, set_lastIndex (fresh h) 0 (snd (new_regexp r True h)))"
  by (simp add: string_replace_def new_regexp_def)

lemma split_new:
  "string_split (fst (new_regexp r g h)) s (snd (new_regexp r g h)) =
     (regex_split r s, snd (new_regexp r g h))"
  by (simp add: string_split_def new_regexp_def)

lemmas heap_simps = case_prod_beta match_new test_new replace_new replace_all_new split_new

lemma extract_final_st_pure: "fst (extract_final_st text h) = extract_final text"
  by (simp add: extract_final_st_def extract_final_def heap_simps split: option.splits)

lemma contentToParse_st_pure: "fst (contentToParse_st st h) = contentToParse st"
  by (simp add: contentToParse_st_def contentToParse_def heap_simps split: option.splits)

lemma branch_st_pure:
  assumes "\<And>h. fst (otherwise h) = other"
  shows "fst (branch_st t s c otherwise h) =
           (if test t c then filter nonblank (regex_split s c) else other)"
  using assms by (simp add: branch_st_def heap_simps)

lemma rawSteps_st_pure: "fst (rawSteps_st c h) = rawSteps c"
  unfolding rawSteps_st_def rawSteps_def
  by (simp add: branch_st_pure)

lemma normalize_step_st_pure: "fst (normalize_step_st raw h) = normalize_step raw"
  by (cases "split_nl (trim raw)")
     (simp_all add: normalize_step_st_def normalize_step_def heap_simps Let_def
        cong: option.case_cong)

lemma map_result_st_pure:
  "(\<And>x h. fst (f x h) = g x) \<Longrightarrow> fst (map_result_st f xs h) = map_result g xs"
proof (induction xs arbitrary: h)
  case Nil
  show ?case by simp
next
  case (Cons x xs)
  obtain r h' where fx: "f x h = (r, h')" by (cases "f x h")
  then have gx: "g x = r" using Cons.prems [of x h] by simp
  obtain rs h'' where m: "map_result_st f xs h' = (rs, h'')" by (cases "map_result_st f xs h'")
  then have "map_result g xs = rs" using Cons.IH [OF Cons.prems, of h'] by simp
  then show ?case using fx gx m by (simp split: sum.splits)
qed

lemma parseResult_st_pure: "fst (parseResult_st text h) = parseResult text"
proof (cases "text = []")
  case True
  then show ?thesis by (simp add: parseResult_st_def parseResult_def)
next
  case False
  obtain fa st h1 where e: "extract_final_st text h = ((fa, st), h1)"
    by (cases "extract_final_st text h") auto
  then have e': "extract_final text = (fa, st)"
    using extract_final_st_pure [of "text" h] by simp
  obtain c h2 where c: "contentToParse_st st h1 = (c, h2)" by (cases "contentToParse_st st h1")
  then have c': "contentToParse st = c" using contentToParse_st_pure [of st h1] by simp
  obtain raw h3 where r: "rawSteps_st c h2 = (raw, h3)" by (cases "rawSteps_st c h2")
  then have r': "rawSteps c = raw" using rawSteps_st_pure [of c h2] by simp
  obtain ss h4 where m: "map_result_st normalize_step_st raw h3 = (ss, h4)"
    by (cases "map_result_st normalize_step_st raw h3")
  then have m': "map_result normalize_step raw = ss"
    using map_result_st_pure [of normalize_step_st normalize_step raw h3]
      normalize_step_st_pure by simp
  show ?thesis
    using False e e' c c' r r' m m'
    by (simp add: parseResult_st_def parseResult_def build_def Let_def split: sum.splits)
qed

text \<open>
  C8.  Two calls of \<open>parseResult\<close> on the same string give the same result (\<open>null\<close>, or the
  same steps in the same order, the same final answer and the same fallback flag),
  whatever the heap of pattern objects is at each call, and so also when the second call
  runs on the heap that the first one left.  Every pattern literal is evaluated anew at
  each call, the patterns without the \<open>g\<close> flag neither read nor write \<open>lastIndex\<close>, and
  the one with the \<open>g\<close> flag (\<open>/\*\*/g\<close>) is used by \<open>replace\<close>, which sets \<open>lastIndex\<close> to 0
  before it searches.
\<close>

theorem parseResult_deterministic:
  "fst (parseResult_st text h1) = fst (parseResult_st text h2) \<and>
   fst (parseResult_st text (snd (parseResult_st text h1))) = fst (parseResult_st text h1)"
  by (simp add: parseResult_st_pure)

end
